theory Spec2Isabelle
  imports Complex_Main "HOL-Library.Signed_Division"
begin

section \<open>Dates\<close>

text \<open>
  A JavaScript \<^verbatim>\<open>Date\<close> is its time value: the number of milliseconds since
  1970-01-01T00:00Z, an \<^typ>\<open>int\<close>. The getters and setters the scoring engine uses
  (\<^verbatim>\<open>setHours\<close>, \<^verbatim>\<open>getDate\<close>, \<^verbatim>\<open>setDate\<close>, \<^verbatim>\<open>getDay\<close>,
  \<^verbatim>\<open>getFullYear\<close>, \<^verbatim>\<open>getMonth\<close>) work in local time, so the environment
  the functions run in is part of the model: the instant \<^verbatim>\<open>new Date()\<close> returns and the
  offset of local time from UTC, in minutes, positive east of Greenwich. The offset is
  constant (no daylight-saving change inside the period looked at), so that one local day
  is \<open>24\<close> hours.
\<close>

record clock =
  now :: int
  utcOffset :: int

definition msPerDay :: int where
  "msPerDay = 1000 * 60 * 60 * 24"

text \<open>The local calendar day of an instant, as the number of days since 1970-01-01.\<close>

definition localDay :: "int \<Rightarrow> int \<Rightarrow> int" where
  "localDay tz t = (t + tz * 60000) div msPerDay"

text \<open>\<^verbatim>\<open>d.setHours(0, 0, 0, 0)\<close>: local midnight of the local day of \<open>t\<close>.\<close>

definition setHours0 :: "int \<Rightarrow> int \<Rightarrow> int" where
  "setHours0 tz t = localDay tz t * msPerDay - tz * 60000"

text \<open>\<^verbatim>\<open>d.setDate(d.getDate() + k)\<close>: the same local time of day, \<open>k\<close> days later.\<close>

definition addDays :: "int \<Rightarrow> int \<Rightarrow> int" where
  "addDays t k = t + k * msPerDay"

text \<open>\<^verbatim>\<open>d.getDay()\<close>: the local weekday, Sunday is 0; 1970-01-01 was a Thursday.\<close>

definition getDay :: "int \<Rightarrow> int \<Rightarrow> int" where
  "getDay tz t = (localDay tz t + 4) mod 7"

text \<open>
  Completion dates are strings \<^verbatim>\<open>YYYY-MM-DD\<close> (the \<^verbatim>\<open>date\<close> field of the
  Completion model). Such strings stand one-to-one for calendar days and their string order
  is the calendar order, so the model writes a date string as the number of its day since
  1970-01-01. \<open>ymd\<close> is that number for the string \<^verbatim>\<open>y-m-d\<close>.
\<close>

type_synonym dateStr = int

definition ymd :: "int \<Rightarrow> int \<Rightarrow> int \<Rightarrow> dateStr" where
  "ymd y m d =
     (let y' = (if m \<le> 2 then y - 1 else y);
          era = y' div 400;
          yoe = y' - era * 400;
          doy = (153 * (if m > 2 then m - 3 else m + 9) + 2) div 5 + d - 1;
          doe = yoe * 365 + yoe div 4 - yoe div 100 + doy
      in era * 146097 + doe - 719468)"

text \<open>
  \<^verbatim>\<open>formatDate(date)\<close> builds the string from the local year, month and day of the
  month: it is the string of the local day.
\<close>

definition formatDate :: "int \<Rightarrow> int \<Rightarrow> dateStr" where
  "formatDate tz date = localDay tz date"

text \<open>
  \<^verbatim>\<open>new Date('YYYY-MM-DD')\<close>: ECMAScript reads a date-only string as midnight UTC
  of that day.
\<close>

definition parseDate :: "dateStr \<Rightarrow> int" where
  "parseDate s = s * msPerDay"

section \<open>Habits\<close>

text \<open>
  The fields of a habit object that the scoring engine reads. An absent field is
  \<open>None\<close>. \<open>createdAt\<close> is the time value of \<^verbatim>\<open>new Date(habit.createdAt)\<close>
  (the application stores \<^verbatim>\<open>new Date().toISOString()\<close>), \<open>None\<close> when that is an
  invalid date. \<open>interval\<close> is an integer; weekdays are integers.
\<close>

record habit =
  frequency :: "string option"
  interval :: "int option"
  createdAt :: "int option"
  specificDays :: "int list option"

section \<open>The scheduling predicate\<close>

text \<open>
  \<^verbatim>\<open>habit.frequency || 'daily'\<close> and \<^verbatim>\<open>habit.interval || 2\<close>: an absent value,
  the empty string and the number 0 are falsy. An array is never falsy, so only an absent
  \<^verbatim>\<open>specificDays\<close> is replaced. With an invalid \<^verbatim>\<open>createdAt\<close> the day count is
  NaN and the comparison \<^verbatim>\<open>NaN >= 0\<close> is false. \<^verbatim>\<open>%\<close> is the remainder of the
  truncating division, \<open>smod\<close>.
\<close>

definition isDayScheduled :: "int \<Rightarrow> int \<Rightarrow> habit \<Rightarrow> bool" where
  "isDayScheduled tz date h =
     (let freq = (case frequency h of None \<Rightarrow> ''daily''
                  | Some f \<Rightarrow> if f = [] then ''daily'' else f)
      in if freq = ''daily'' then True
         else if freq = ''weekly'' then True
         else if freq = ''interval'' then
           (let ival = (case interval h of None \<Rightarrow> 2
                        | Some n \<Rightarrow> if n = 0 then 2 else n)
            in case createdAt h of
                 None \<Rightarrow> False
               | Some created \<Rightarrow>
                   (let habitStartDate = setHours0 tz created;
                        daysSinceStart = (date - habitStartDate) div msPerDay
                    in daysSinceStart \<ge> 0 \<and> daysSinceStart smod ival = 0))
         else if freq = ''specific_days'' then
           (let days = (case specificDays h of None \<Rightarrow> [0, 1, 2, 3, 4, 5, 6]
                        | Some ds \<Rightarrow> ds)
            in getDay tz date \<in> set days)
         else True)"

text \<open>
  The rule for interval habits in the words of the specification, for comparison with
  \<open>isDayScheduled\<close>: the interval is an integer of at least 2 and defaults to 2 when it
  is absent or invalid; the date is scheduled when it is on or after \<open>createdAt\<close>
  truncated to midnight and the whole number of days between them, modulo the interval,
  is 0.
\<close>

definition intervalRuleOfSpec :: "int \<Rightarrow> int \<Rightarrow> int \<Rightarrow> int option \<Rightarrow> bool" where
  "intervalRuleOfSpec tz date created ival =
     (let n = (case ival of None \<Rightarrow> 2 | Some k \<Rightarrow> if k \<ge> 2 then k else 2);
          start = setHours0 tz created
      in start \<le> date \<and> ((date - start) div msPerDay) mod n = 0)"

section \<open>The strength score\<close>

text \<open>
  Scores are JavaScript numbers; the model computes with exact reals, so the rounding of
  the double arithmetic is not modelled.
\<close>

definition SCORE_INCREASE :: real where "SCORE_INCREASE = 0.052"
definition SCORE_DECREASE :: real where "SCORE_DECREASE = 0.035"
definition MAX_SCORE :: real where "MAX_SCORE = 1.0"
definition MIN_SCORE :: real where "MIN_SCORE = 0.0"

text \<open>
  The loop \<^verbatim>\<open>for (let i = daysToAnalyze - 1; i >= 0; i--)\<close> of
  \<^verbatim>\<open>calculateHabitScore\<close>, from the state \<open>(i, score)\<close>.
\<close>

function habitScoreLoop ::
  "int \<Rightarrow> dateStr set \<Rightarrow> habit \<Rightarrow> int \<Rightarrow> int \<Rightarrow> real \<Rightarrow> real" where
  "habitScoreLoop tz completedSet h today i score =
     (if i \<ge> 0 then
        (if \<not> isDayScheduled tz (addDays today (- i)) h then
           habitScoreLoop tz completedSet h today (i - 1) score
         else if formatDate tz (addDays today (- i)) \<in> completedSet then
           habitScoreLoop tz completedSet h today (i - 1)
             (min MAX_SCORE (score + SCORE_INCREASE * (1 - score * 0.5)))
         else
           habitScoreLoop tz completedSet h today (i - 1)
             (max MIN_SCORE (score - SCORE_DECREASE * (0.5 + score * 0.5))))
      else score)"
  by pat_completeness auto
termination
  by (relation "measure (\<lambda>(tz, completedSet, h, today, i, score). nat (i + 1))") auto

definition calculateHabitScore :: "clock \<Rightarrow> dateStr list \<Rightarrow> habit \<Rightarrow> int \<Rightarrow> real" where
  "calculateHabitScore c completedDates h daysToAnalyze =
     (let completedSet = set completedDates;
          today = setHours0 (utcOffset c) (now c)
      in habitScoreLoop (utcOffset c) completedSet h today (daysToAnalyze - 1) 0)"

section \<open>Streaks\<close>

text \<open>
  The \<^verbatim>\<open>while (true)\<close> loop of \<^verbatim>\<open>calculateStreak\<close>, from the state
  \<open>(currentDate, streak)\<close>. It leaves at the first scheduled day that was missed, or when
  the date has moved more than 365 days before today.
\<close>

function streakLoop ::
  "int \<Rightarrow> dateStr set \<Rightarrow> habit \<Rightarrow> int \<Rightarrow> int \<Rightarrow> nat \<Rightarrow> nat" where
  "streakLoop tz completedSet h today currentDate streak =
     (if isDayScheduled tz currentDate h \<and> formatDate tz currentDate \<notin> completedSet
      then streak
      else if (today - addDays currentDate (- 1)) div msPerDay > 365
      then (if isDayScheduled tz currentDate h then streak + 1 else streak)
      else streakLoop tz completedSet h today (addDays currentDate (- 1))
             (if isDayScheduled tz currentDate h then streak + 1 else streak))"
  by pat_completeness auto
termination
  by (relation "measure (\<lambda>(tz, completedSet, h, today, currentDate, streak).
        nat (366 - (today - currentDate) div msPerDay))")
     (auto simp: addDays_def msPerDay_def)

definition calculateStreak :: "clock \<Rightarrow> dateStr list \<Rightarrow> habit \<Rightarrow> nat" where
  "calculateStreak c completedDates h =
     (if length completedDates = 0 then 0
      else
        (let sortedDates = rev (sort completedDates);
             completedSet = set sortedDates;
             today = setHours0 (utcOffset c) (now c);
             todayStr = formatDate (utcOffset c) today;
             currentDate =
               (if todayStr \<notin> completedSet \<and> isDayScheduled (utcOffset c) today h
                then addDays today (- 1) else today)
         in streakLoop (utcOffset c) completedSet h today currentDate 0))"

text \<open>
  The loop \<^verbatim>\<open>while (currentDate <= endDate)\<close> of \<^verbatim>\<open>calculateBestStreak\<close>,
  from the state \<open>(currentDate, bestStreak, currentStreak)\<close>.
\<close>

function bestStreakLoop ::
  "int \<Rightarrow> dateStr set \<Rightarrow> habit \<Rightarrow> int \<Rightarrow> int \<Rightarrow> nat \<Rightarrow> nat \<Rightarrow> nat" where
  "bestStreakLoop tz completedSet h endDate currentDate bestStreak currentStreak =
     (if currentDate \<le> endDate then
        (if isDayScheduled tz currentDate h then
           (if formatDate tz currentDate \<in> completedSet then
              bestStreakLoop tz completedSet h endDate (addDays currentDate 1)
                (max bestStreak (currentStreak + 1)) (currentStreak + 1)
            else
              bestStreakLoop tz completedSet h endDate (addDays currentDate 1) bestStreak 0)
         else
           bestStreakLoop tz completedSet h endDate (addDays currentDate 1)
             bestStreak currentStreak)
      else bestStreak)"
  by pat_completeness auto
termination
  by (relation "measure (\<lambda>(tz, completedSet, h, endDate, currentDate, bestStreak, currentStreak).
        nat (endDate - currentDate + 1))")
     (auto simp: addDays_def msPerDay_def)

definition calculateBestStreak :: "clock \<Rightarrow> dateStr list \<Rightarrow> habit \<Rightarrow> nat" where
  "calculateBestStreak c completedDates h =
     (if length completedDates = 0 then 0
      else
        (let sortedDates = sort completedDates;
             completedSet = set sortedDates
         in if length sortedDates = 0 then 0
            else
              (let startDate = parseDate (sortedDates ! 0);
                   endDate = setHours0 (utcOffset c) (now c)
               in bestStreakLoop (utcOffset c) completedSet h endDate startDate 0 0)))"

definition calculateTotal :: "dateStr list \<Rightarrow> nat" where
  "calculateTotal completedDates = length completedDates"

section \<open>Completion rate\<close>

text \<open>
  The loop \<^verbatim>\<open>for (let i = 0; i < days; i++)\<close> of \<^verbatim>\<open>calculateCompletionRate\<close>,
  from the state \<open>(i, scheduledDays, completedDays)\<close>; it returns the two counters.
\<close>

function completionRateLoop ::
  "int \<Rightarrow> dateStr set \<Rightarrow> habit \<Rightarrow> int \<Rightarrow> int \<Rightarrow> int \<Rightarrow> nat \<Rightarrow> nat \<Rightarrow> nat \<times> nat" where
  "completionRateLoop tz completedSet h today days i scheduledDays completedDays =
     (if i < days then
        (if isDayScheduled tz (addDays today (- i)) h then
           (if formatDate tz (addDays today (- i)) \<in> completedSet then
              completionRateLoop tz completedSet h today days (i + 1)
                (scheduledDays + 1) (completedDays + 1)
            else
              completionRateLoop tz completedSet h today days (i + 1)
                (scheduledDays + 1) completedDays)
         else
           completionRateLoop tz completedSet h today days (i + 1)
             scheduledDays completedDays)
      else (scheduledDays, completedDays))"
  by pat_completeness auto
termination
  by (relation "measure (\<lambda>(tz, completedSet, h, today, days, i, scheduledDays, completedDays).
        nat (days - i))") auto

text \<open>
  The result of \<^verbatim>\<open>calculateCompletionRate\<close> is a JavaScript number, and JavaScript's
  division is defined where the divisor is 0: \<^verbatim>\<open>0 / 0\<close> is NaN and a non-zero number
  over 0 is an infinity. HOL's \<open>x / 0\<close> is 0, so the quotient is not written with it:
  \<open>jsDivide\<close> is the division of two finite numbers with the results JavaScript gives
  (the divisor 0 is the positive zero here, a counter that was never incremented).
\<close>

datatype number = Num real | PosInfinity | NegInfinity | NaN

definition jsDivide :: "real \<Rightarrow> real \<Rightarrow> number" where
  "jsDivide a b =
     (if b = 0 then (if a = 0 then NaN else if a > 0 then PosInfinity else NegInfinity)
      else Num (a / b))"

definition calculateCompletionRate :: "clock \<Rightarrow> dateStr list \<Rightarrow> habit \<Rightarrow> int \<Rightarrow> number" where
  "calculateCompletionRate c completedDates h days =
     (let completedSet = set completedDates;
          today = setHours0 (utcOffset c) (now c)
      in case completionRateLoop (utcOffset c) completedSet h today days 0 0 0 of
           (scheduledDays, completedDays) \<Rightarrow>
             if scheduledDays > 0 then jsDivide (real completedDays) (real scheduledDays)
             else Num 0)"

section \<open>Score history\<close>

text \<open>
  An entry \<^verbatim>\<open>{date, score}\<close> of the history. The fields carry a prefix here because
  \<open>date\<close> and \<open>score\<close> are the names of the loop variables.
\<close>

record scoreHistoryPoint =
  point_date :: dateStr
  point_score :: real

text \<open>
  The loop of \<^verbatim>\<open>calculateScoreHistory\<close>, from the state \<open>(i, score, history)\<close>;
  \<^verbatim>\<open>history.push\<close> appends at the end.
\<close>

function scoreHistoryLoop ::
  "int \<Rightarrow> dateStr set \<Rightarrow> habit \<Rightarrow> int \<Rightarrow> int \<Rightarrow> real \<Rightarrow> scoreHistoryPoint list
     \<Rightarrow> scoreHistoryPoint list" where
  "scoreHistoryLoop tz completedSet h today i score history =
     (if i \<ge> 0 then
        (if isDayScheduled tz (addDays today (- i)) h then
           (if formatDate tz (addDays today (- i)) \<in> completedSet then
              scoreHistoryLoop tz completedSet h today (i - 1)
                (min MAX_SCORE (score + SCORE_INCREASE * (1 - score * 0.5)))
                (history @ [\<lparr>point_date = formatDate tz (addDays today (- i)),
                   point_score = min MAX_SCORE (score + SCORE_INCREASE * (1 - score * 0.5))\<rparr>])
            else
              scoreHistoryLoop tz completedSet h today (i - 1)
                (max MIN_SCORE (score - SCORE_DECREASE * (0.5 + score * 0.5)))
                (history @ [\<lparr>point_date = formatDate tz (addDays today (- i)),
                   point_score = max MIN_SCORE (score - SCORE_DECREASE * (0.5 + score * 0.5))\<rparr>]))
         else
           scoreHistoryLoop tz completedSet h today (i - 1) score
             (history @ [\<lparr>point_date = formatDate tz (addDays today (- i)),
                point_score = score\<rparr>]))
      else history)"
  by pat_completeness auto
termination
  by (relation "measure (\<lambda>(tz, completedSet, h, today, i, score, history). nat (i + 1))") auto

definition calculateScoreHistory ::
  "clock \<Rightarrow> dateStr list \<Rightarrow> habit \<Rightarrow> int \<Rightarrow> scoreHistoryPoint list" where
  "calculateScoreHistory c completedDates h days =
     (let completedSet = set completedDates;
          today = setHours0 (utcOffset c) (now c)
      in scoreHistoryLoop (utcOffset c) completedSet h today (days - 1) 0 [])"

section \<open>All statistics\<close>

text \<open>
  \<^verbatim>\<open>getHabitStats\<close> calls the score, the completion rate and the history without a
  window argument, so each takes its default: 60, 30 and 30 days. The fields of the result
  object carry the prefix \<open>stats_\<close>.
\<close>

record habitStats =
  stats_score :: real
  stats_currentStreak :: nat
  stats_bestStreak :: nat
  stats_total :: nat
  stats_completionRate :: number
  stats_scoreHistory :: "scoreHistoryPoint list"

definition getHabitStats :: "clock \<Rightarrow> dateStr list \<Rightarrow> habit \<Rightarrow> habitStats" where
  "getHabitStats c completedDates h =
     \<lparr>stats_score = calculateHabitScore c completedDates h 60,
      stats_currentStreak = calculateStreak c completedDates h,
      stats_bestStreak = calculateBestStreak c completedDates h,
      stats_total = calculateTotal completedDates,
      stats_completionRate = calculateCompletionRate c completedDates h 30,
      stats_scoreHistory = calculateScoreHistory c completedDates h 30\<rparr>"

section \<open>Concrete inputs\<close>

text \<open>
  Inputs for the worked examples: a clock that shows noon, local time, on 2024-01-03 in
  the zone \<open>tz\<close> minutes east of UTC, a daily habit, and a habit done every
  \<open>n\<close> days from the instant \<open>created\<close>.
\<close>

definition noonClock :: "int \<Rightarrow> clock" where
  "noonClock tz = \<lparr>now = parseDate (ymd 2024 1 3) + 12 * 3600000 - tz * 60000, utcOffset = tz\<rparr>"

definition dailyHabit :: habit where
  "dailyHabit = \<lparr>frequency = Some ''daily'', interval = None, createdAt = None,
                  specificDays = None\<rparr>"

definition intervalHabit :: "int \<Rightarrow> int \<Rightarrow> habit" where
  "intervalHabit n created = \<lparr>frequency = Some ''interval'', interval = Some n,
                  createdAt = Some created, specificDays = None\<rparr>"

section \<open>One day of the walk\<close>

text \<open>
  The update of the running score on the day \<open>i\<close> days before today. It is what the
  bodies of the loops of \<^verbatim>\<open>calculateHabitScore\<close> and
  \<^verbatim>\<open>calculateScoreHistory\<close> both compute; the lemmas \<open>habitScoreLoop_unfold\<close>
  and \<open>scoreHistoryLoop_unfold\<close> prove it of each loop.
\<close>

definition nextScore :: "int \<Rightarrow> dateStr set \<Rightarrow> habit \<Rightarrow> int \<Rightarrow> int \<Rightarrow> real \<Rightarrow> real" where
  "nextScore tz completedSet h today i score =
     (if isDayScheduled tz (addDays today (- i)) h then
        (if formatDate tz (addDays today (- i)) \<in> completedSet
         then min MAX_SCORE (score + SCORE_INCREASE * (1 - score * 0.5))
         else max MIN_SCORE (score - SCORE_DECREASE * (0.5 + score * 0.5)))
      else score)"

section \<open>A habit done every day\<close>



section \<open>The loops, one step at a time\<close>

declare habitScoreLoop.simps [simp del]
declare scoreHistoryLoop.simps [simp del]
declare streakLoop.simps [simp del]
declare bestStreakLoop.simps [simp del]
declare completionRateLoop.simps [simp del]

lemma habitScoreLoop_unfold:
  "habitScoreLoop tz cs h today i score =
     (if i \<ge> 0 then habitScoreLoop tz cs h today (i - 1) (nextScore tz cs h today i score)
      else score)"
  by (subst habitScoreLoop.simps) (simp add: nextScore_def)

lemma scoreHistoryLoop_unfold:
  "scoreHistoryLoop tz cs h today i score history =
     (if i \<ge> 0 then
        scoreHistoryLoop tz cs h today (i - 1) (nextScore tz cs h today i score)
          (history @ [\<lparr>point_date = formatDate tz (addDays today (- i)),
                       point_score = nextScore tz cs h today i score\<rparr>])
      else history)"
  by (subst scoreHistoryLoop.simps) (simp add: nextScore_def)

section \<open>The score stays between 0 and 1\<close>

lemma nextScore_bounds:
  assumes "0 \<le> score" "score \<le> 1"
  shows "0 \<le> nextScore tz cs h today i score" "nextScore tz cs h today i score \<le> 1"
proof -
  have up: "0 \<le> score + 0.052 * (1 - score * 0.5)"
    using assms by (simp add: field_simps)
  have down: "score - 0.035 * (0.5 + score * 0.5) \<le> 1"
    using assms by (simp add: field_simps)
  show "0 \<le> nextScore tz cs h today i score"
    using assms up
    by (simp add: nextScore_def MAX_SCORE_def MIN_SCORE_def SCORE_INCREASE_def SCORE_DECREASE_def)
  show "nextScore tz cs h today i score \<le> 1"
    using assms down
    by (simp add: nextScore_def MAX_SCORE_def MIN_SCORE_def SCORE_INCREASE_def SCORE_DECREASE_def)
qed

lemma habitScoreLoop_bounds:
  "0 \<le> score \<Longrightarrow> score \<le> 1 \<Longrightarrow>
   0 \<le> habitScoreLoop tz cs h today i score \<and> habitScoreLoop tz cs h today i score \<le> 1"
proof (induction tz cs h today i score rule: habitScoreLoop.induct)
  case (1 tz cs h today i score)
  show ?case
  proof (cases "i \<ge> 0")
    case True
    have "0 \<le> nextScore tz cs h today i score" "nextScore tz cs h today i score \<le> 1"
      using "1.prems" by (rule nextScore_bounds)+
    then show ?thesis
      using True "1.IH"
      by (subst (1 2) habitScoreLoop.simps) (auto simp: nextScore_def split: if_splits)
  next
    case False
    then show ?thesis using "1.prems" by (subst (1 2) habitScoreLoop.simps) simp
  qed
qed

text \<open>
  C1. For every clock, every list of completion dates, every habit and every window
  length, the result of \<open>calculateHabitScore\<close> is at least 0 and at most 1. The window
  length is any integer: for a negative one the loop does not run and the result is the
  initial 0, so the non-negative lengths of the claim are covered.
\<close>

theorem calculateHabitScore_range:
  "0 \<le> calculateHabitScore c completedDates h lookbackDays \<and>
   calculateHabitScore c completedDates h lookbackDays \<le> 1"
  unfolding calculateHabitScore_def Let_def by (rule habitScoreLoop_bounds) simp_all

section \<open>Local days\<close>

lemma msPerDay_pos: "0 < msPerDay"
  by (simp add: msPerDay_def)

lemma localDay_setHours0: "localDay tz (setHours0 tz t) = localDay tz t"
  using msPerDay_pos by (simp add: localDay_def setHours0_def)

lemma localDay_addDays: "localDay tz (addDays t k) = localDay tz t + k"
proof -
  have "t + k * msPerDay + tz * 60000 = (t + tz * 60000) + k * msPerDay"
    by simp
  moreover have "((t + tz * 60000) + k * msPerDay) div msPerDay = (t + tz * 60000) div msPerDay + k"
    using msPerDay_pos by simp
  ultimately show ?thesis
    by (simp only: localDay_def addDays_def)
qed

section \<open>The history walk and the score walk\<close>

lemma scoreHistoryLoop_last:
  "point_score (last (scoreHistoryLoop tz cs h today (int n) score history)) =
   habitScoreLoop tz cs h today (int n) score"
proof (induction n arbitrary: score history)
  case 0
  show ?case
    apply (subst scoreHistoryLoop_unfold, subst habitScoreLoop_unfold)
    apply simp
    apply (subst scoreHistoryLoop_unfold, subst habitScoreLoop_unfold)
    apply simp
    done
next
  case (Suc n)
  have eq: "int (Suc n) - 1 = int n" by simp
  show ?case
    apply (subst scoreHistoryLoop_unfold, subst habitScoreLoop_unfold)
    apply (simp only: eq)
    apply (simp add: Suc.IH)
    done
qed

text \<open>
  C2. For every clock, completion list, habit and window length \<open>N \<ge> 1\<close>, the score of
  the last entry of \<open>calculateScoreHistory \<dots> N\<close> equals
  \<open>calculateHabitScore \<dots> N\<close>.
\<close>

theorem scoreHistory_last_is_score:
  assumes "1 \<le> N"
  shows "point_score (last (calculateScoreHistory c completedDates h N)) =
         calculateHabitScore c completedDates h N"
proof -
  have "N - 1 = int (nat (N - 1))" using assms by simp
  then show ?thesis
    unfolding calculateScoreHistory_def calculateHabitScore_def Let_def
    using scoreHistoryLoop_last by metis
qed

theorem scoreHistory_last_is_score_witness:
  "(1::int) \<le> 3 \<and>
   point_score (last (calculateScoreHistory (noonClock 0) [ymd 2024 1 1, ymd 2024 1 3] dailyHabit 3)) =
   calculateHabitScore (noonClock 0) [ymd 2024 1 1, ymd 2024 1 3] dailyHabit 3"
  using scoreHistory_last_is_score [of 3 "noonClock 0" "[ymd 2024 1 1, ymd 2024 1 3]" dailyHabit]
  by simp

lemma scoreHistoryLoop_length:
  "length (scoreHistoryLoop tz cs h today (int n - 1) score history) = length history + n"
proof (induction n arbitrary: score history)
  case 0
  show ?case by (subst scoreHistoryLoop_unfold) simp
next
  case (Suc n)
  have eq: "int (Suc n) - 1 = int n" by simp
  show ?case
    apply (simp only: eq)
    apply (subst scoreHistoryLoop_unfold)
    apply (simp add: Suc.IH)
    done
qed

lemma scoreHistoryLoop_append:
  "scoreHistoryLoop tz cs h today (int n - 1) score history =
   history @ scoreHistoryLoop tz cs h today (int n - 1) score []"
proof (induction n arbitrary: score history)
  case 0
  show ?case by (subst (1 2) scoreHistoryLoop_unfold) simp
next
  case (Suc n)
  have eq: "int (Suc n) - 1 = int n" by simp
  show ?case
    apply (simp only: eq)
    apply (subst (1 2) scoreHistoryLoop_unfold)
    apply (simp only: of_nat_0_le_iff if_True append_Nil)
    apply (subst Suc.IH)
    apply (subst (2) Suc.IH)
    apply simp
    done
qed

lemma scoreHistoryLoop_Cons:
  "scoreHistoryLoop tz cs h today (int n) score [] =
   \<lparr>point_date = formatDate tz (addDays today (- int n)),
    point_score = nextScore tz cs h today (int n) score\<rparr>
   # scoreHistoryLoop tz cs h today (int n - 1) (nextScore tz cs h today (int n) score) []"
  apply (subst scoreHistoryLoop_unfold)
  apply (simp only: of_nat_0_le_iff if_True append_Nil)
  apply (subst scoreHistoryLoop_append)
  apply simp
  done

lemma scoreHistoryLoop_date:
  "k < n \<Longrightarrow>
   point_date (scoreHistoryLoop tz cs h today (int n - 1) score [] ! k) =
   formatDate tz (addDays today (- (int n - 1 - int k)))"
proof (induction n arbitrary: k score)
  case 0
  then show ?case by simp
next
  case (Suc n)
  have eq: "int (Suc n) - 1 = int n" by simp
  show ?case
  proof (cases k)
    case 0
    then show ?thesis by (simp only: eq scoreHistoryLoop_Cons) simp
  next
    case (Suc k')
    then have k': "k' < n" using Suc.prems by simp
    have ar: "int n - int (Suc k') = int n - 1 - int k'" by simp
    have "point_date (scoreHistoryLoop tz cs h today (int n) score [] ! Suc k') =
          formatDate tz (addDays today (- (int n - 1 - int k')))"
      by (simp only: scoreHistoryLoop_Cons nth_Cons_Suc Suc.IH [OF k'])
    then show ?thesis
      unfolding Suc eq ar .
  qed
qed

lemma scoreHistoryLoop_unscheduled:
  "k < n \<Longrightarrow> \<not> isDayScheduled tz (addDays today (- (int n - 1 - int k))) h \<Longrightarrow>
   point_score (scoreHistoryLoop tz cs h today (int n - 1) score [] ! k) =
   (if k = 0 then score
    else point_score (scoreHistoryLoop tz cs h today (int n - 1) score [] ! (k - 1)))"
proof (induction n arbitrary: k score)
  case 0
  then show ?case by simp
next
  case (Suc n)
  have eq: "int (Suc n) - 1 = int n" by simp
  show ?case
  proof (cases k)
    case 0
    then show ?thesis
      using Suc.prems by (simp only: eq scoreHistoryLoop_Cons) (simp add: nextScore_def)
  next
    case (Suc k')
    then have k': "k' < n" using Suc.prems by simp
    have ar: "int n - int (Suc k') = int n - 1 - int k'" by simp
    have day: "\<not> isDayScheduled tz (addDays today (- (int n - 1 - int k'))) h"
      using Suc.prems(2) unfolding Suc eq ar .
    from Suc.IH [OF k' day] show ?thesis
      unfolding Suc by (simp only: eq scoreHistoryLoop_Cons) (simp add: nth_Cons')
  qed
qed

text \<open>
  C8. For a window length \<open>days \<ge> 0\<close> the history has exactly \<open>days\<close> entries; entry
  \<open>k\<close> (counted from 0) carries the date \<open>days - 1 - k\<close> days before today's local
  day, so the entries are consecutive calendar days, oldest first, and the last one is
  today; and the entry of a day that is not scheduled has the score of the entry before
  it (of the initial score 0 when it is the first entry).
\<close>

theorem calculateScoreHistory_entries:
  assumes "0 \<le> days"
  shows "length (calculateScoreHistory c completedDates h days) = nat days \<and>
    (\<forall>k < nat days.
       point_date (calculateScoreHistory c completedDates h days ! k) =
         localDay (utcOffset c) (now c) - (days - 1 - int k) \<and>
       (\<not> isDayScheduled (utcOffset c)
            (addDays (setHours0 (utcOffset c) (now c)) (- (days - 1 - int k))) h \<longrightarrow>
        point_score (calculateScoreHistory c completedDates h days ! k) =
          (if k = 0 then 0
           else point_score (calculateScoreHistory c completedDates h days ! (k - 1)))))"
proof -
  from assms obtain n where n: "days = int n"
    by (metis nat_0_le)
  have len: "length (calculateScoreHistory c completedDates h days) = nat days"
    unfolding n calculateScoreHistory_def Let_def by (simp only: scoreHistoryLoop_length) simp
  have dates: "point_date (calculateScoreHistory c completedDates h days ! k) =
         localDay (utcOffset c) (now c) - (days - 1 - int k)" if "k < nat days" for k
  proof -
    have "k < n" using that n by simp
    then show ?thesis
      unfolding n calculateScoreHistory_def Let_def
      by (simp only: scoreHistoryLoop_date formatDate_def localDay_addDays localDay_setHours0)
  qed
  have same: "point_score (calculateScoreHistory c completedDates h days ! k) =
          (if k = 0 then 0
           else point_score (calculateScoreHistory c completedDates h days ! (k - 1)))"
    if "k < nat days"
      and "\<not> isDayScheduled (utcOffset c)
            (addDays (setHours0 (utcOffset c) (now c)) (- (days - 1 - int k))) h" for k
  proof -
    have "k < n" using that n by simp
    then show ?thesis
      using that(2) unfolding n calculateScoreHistory_def Let_def
      by (rule scoreHistoryLoop_unscheduled)
  qed
  show ?thesis
    using len dates same by blast
qed

theorem calculateScoreHistory_entries_witness:
  "(0::int) \<le> 3 \<and> (1::nat) < nat 3 \<and>
   \<not> isDayScheduled (utcOffset (noonClock 0))
       (addDays (setHours0 (utcOffset (noonClock 0)) (now (noonClock 0))) (- (3 - 1 - int 1)))
       (intervalHabit 2 (parseDate (ymd 2024 1 1))) \<and>
   length (calculateScoreHistory (noonClock 0) [ymd 2024 1 1]
             (intervalHabit 2 (parseDate (ymd 2024 1 1))) 3) = 3 \<and>
   point_date (calculateScoreHistory (noonClock 0) [ymd 2024 1 1]
             (intervalHabit 2 (parseDate (ymd 2024 1 1))) 3 ! 1) = ymd 2024 1 2 \<and>
   point_score (calculateScoreHistory (noonClock 0) [ymd 2024 1 1]
             (intervalHabit 2 (parseDate (ymd 2024 1 1))) 3 ! 1) =
   point_score (calculateScoreHistory (noonClock 0) [ymd 2024 1 1]
             (intervalHabit 2 (parseDate (ymd 2024 1 1))) 3 ! 0)"
proof -
  have u: "\<not> isDayScheduled (utcOffset (noonClock 0))
       (addDays (setHours0 (utcOffset (noonClock 0)) (now (noonClock 0))) (- (3 - 1 - int 1)))
       (intervalHabit 2 (parseDate (ymd 2024 1 1)))"
    by (simp add: isDayScheduled_def intervalHabit_def noonClock_def addDays_def setHours0_def
      localDay_def parseDate_def ymd_def msPerDay_def signed_modulo_int_def)
  have d: "localDay (utcOffset (noonClock 0)) (now (noonClock 0)) - (3 - 1 - int 1) = ymd 2024 1 2"
    by (simp add: noonClock_def localDay_def parseDate_def ymd_def msPerDay_def)
  show ?thesis
    using calculateScoreHistory_entries [of 3 "noonClock 0" "[ymd 2024 1 1]"
        "intervalHabit 2 (parseDate (ymd 2024 1 1))"] u d
    by simp
qed
section \<open>No completions\<close>

text \<open>
  C6. With an empty completion list \<open>calculateStreak\<close>, \<open>calculateBestStreak\<close> and
  \<open>calculateTotal\<close> return 0, for every clock and habit. On this input each source
  function returns in its first statement, before any date is read, so nothing can throw.
\<close>

theorem empty_completions:
  "calculateStreak c [] h = 0 \<and> calculateBestStreak c [] h = 0 \<and> calculateTotal [] = 0"
  by (simp add: calculateStreak_def calculateBestStreak_def calculateTotal_def)

section \<open>A daily habit with every day completed\<close>


















section \<open>Interval habits\<close>

lemma smod_eq_0_iff_dvd:
  fixes a b :: int
  assumes "0 \<le> a"
  shows "a smod b = 0 \<longleftrightarrow> b dvd a"
proof -
  have "a smod b = 0 \<longleftrightarrow> a = 0 \<or> \<bar>a\<bar> mod \<bar>b\<bar> = 0"
    by (simp add: signed_modulo_int_def sgn_0_0)
  also have "\<dots> \<longleftrightarrow> \<bar>a\<bar> mod \<bar>b\<bar> = 0" by auto
  also have "\<dots> \<longleftrightarrow> b dvd a" by (simp add: mod_eq_0_iff_dvd)
  finally show ?thesis .
qed

lemma daysSinceStart_nonneg:
  "0 \<le> (date - start) div msPerDay \<longleftrightarrow> start \<le> date"
  using msPerDay_pos by (simp add: pos_imp_zdiv_nonneg_iff)

lemma div_add_days: "(a + k * msPerDay) div msPerDay = a div msPerDay + k"
  using msPerDay_pos by simp

lemma daysSinceStart_localDay:
  "(date - setHours0 tz created) div msPerDay = localDay tz date - localDay tz created"
proof -
  have "date - setHours0 tz created = (date + tz * 60000) + (- localDay tz created) * msPerDay"
    by (simp add: setHours0_def)
  then have "(date - setHours0 tz created) div msPerDay =
             ((date + tz * 60000) + (- localDay tz created) * msPerDay) div msPerDay"
    by (rule arg_cong)
  also have "\<dots> = (date + tz * 60000) div msPerDay + (- localDay tz created)"
    by (rule div_add_days)
  also have "\<dots> = localDay tz date - localDay tz created"
    by (simp add: localDay_def)
  finally show ?thesis .
qed

lemma isDayScheduled_interval_iff:
  assumes "frequency h = Some ''interval''" and "createdAt h = Some created"
  shows "isDayScheduled tz date h \<longleftrightarrow>
         setHours0 tz created \<le> date \<and>
         (case interval h of None \<Rightarrow> 2 | Some n \<Rightarrow> if n = 0 then 2 else n)
           dvd (date - setHours0 tz created) div msPerDay"
proof -
  let ?d = "(date - setHours0 tz created) div msPerDay"
  let ?n = "case interval h of None \<Rightarrow> 2 | Some n \<Rightarrow> if n = 0 then 2 else n"
  have "isDayScheduled tz date h \<longleftrightarrow> 0 \<le> ?d \<and> ?d smod ?n = 0"
    using assms by (simp add: isDayScheduled_def Let_def)
  also have "\<dots> \<longleftrightarrow> 0 \<le> ?d \<and> ?n dvd ?d"
    using smod_eq_0_iff_dvd by blast
  also have "\<dots> \<longleftrightarrow> setHours0 tz created \<le> date \<and> ?n dvd ?d"
    by (simp only: daysSinceStart_nonneg)
  finally show ?thesis .
qed

lemma localDay_parseDate_zone: "localDay tz (parseDate d) = d + localDay tz 0"
proof -
  have "(tz * 60000 + d * msPerDay) div msPerDay = (tz * 60000) div msPerDay + d"
    by (rule div_add_days)
  then show ?thesis
    by (simp add: localDay_def parseDate_def add.commute)
qed

lemma isDayScheduled_interval_days:
  assumes "frequency h = Some ''interval''" and "createdAt h = Some created"
    and "interval h = Some 2"
  shows "isDayScheduled tz date h \<longleftrightarrow>
       localDay tz created \<le> localDay tz date \<and> 2 dvd (localDay tz date - localDay tz created)"
  using isDayScheduled_interval_iff [OF assms(1,2), of tz date] assms(3)
    daysSinceStart_nonneg [of date "setHours0 tz created"]
  by (simp add: daysSinceStart_localDay)

text \<open>
  C5, as the code has it. For a habit with frequency \<open>interval\<close> and a valid
  \<open>createdAt\<close>, \<open>isDayScheduled\<close> is true exactly when the date is on or after local
  midnight of the day of \<open>createdAt\<close> and the whole number of days between the two is
  divisible by the interval, where only an absent interval and the interval 0 count as 2
  and every other integer is used as it is. In particular, with interval 2: when the local
  day of \<open>createdAt\<close> is 2024-01-01, every instant of the local days 2024-01-01,
  2024-01-03 and 2024-01-05 is scheduled and every instant of 2024-01-02 and 2024-01-04 is
  not; and when \<open>createdAt\<close> and the dates are all given as date-only strings,
  \<^verbatim>\<open>new Date('2024-01-01')\<close> and so on, the same five answers hold in every zone.
\<close>

theorem isDayScheduled_interval:
  assumes "frequency h = Some ''interval''" and "createdAt h = Some created"
  shows "(isDayScheduled tz date h \<longleftrightarrow>
           setHours0 tz created \<le> date \<and>
           (case interval h of None \<Rightarrow> 2 | Some n \<Rightarrow> if n = 0 then 2 else n)
             dvd (date - setHours0 tz created) div msPerDay) \<and>
         (interval h = Some 2 \<and> localDay tz created = ymd 2024 1 1 \<longrightarrow>
           (localDay tz date = ymd 2024 1 1 \<or> localDay tz date = ymd 2024 1 3 \<or>
            localDay tz date = ymd 2024 1 5 \<longrightarrow> isDayScheduled tz date h) \<and>
           (localDay tz date = ymd 2024 1 2 \<or> localDay tz date = ymd 2024 1 4
              \<longrightarrow> \<not> isDayScheduled tz date h)) \<and>
         (interval h = Some 2 \<and> created = parseDate (ymd 2024 1 1) \<longrightarrow>
           isDayScheduled tz (parseDate (ymd 2024 1 1)) h \<and>
           \<not> isDayScheduled tz (parseDate (ymd 2024 1 2)) h \<and>
           isDayScheduled tz (parseDate (ymd 2024 1 3)) h \<and>
           \<not> isDayScheduled tz (parseDate (ymd 2024 1 4)) h \<and>
           isDayScheduled tz (parseDate (ymd 2024 1 5)) h)"
proof -
  note iff = isDayScheduled_interval_iff [OF assms, of tz date]
  note days = isDayScheduled_interval_days [OF assms]
  have local: "interval h = Some 2 \<and> localDay tz created = ymd 2024 1 1 \<longrightarrow>
           (localDay tz date = ymd 2024 1 1 \<or> localDay tz date = ymd 2024 1 3 \<or>
            localDay tz date = ymd 2024 1 5 \<longrightarrow> isDayScheduled tz date h) \<and>
           (localDay tz date = ymd 2024 1 2 \<or> localDay tz date = ymd 2024 1 4
              \<longrightarrow> \<not> isDayScheduled tz date h)"
    using days [of tz date] by (auto simp: ymd_def)
  have parsed: "interval h = Some 2 \<and> created = parseDate (ymd 2024 1 1) \<longrightarrow>
           isDayScheduled tz (parseDate (ymd 2024 1 1)) h \<and>
           \<not> isDayScheduled tz (parseDate (ymd 2024 1 2)) h \<and>
           isDayScheduled tz (parseDate (ymd 2024 1 3)) h \<and>
           \<not> isDayScheduled tz (parseDate (ymd 2024 1 4)) h \<and>
           isDayScheduled tz (parseDate (ymd 2024 1 5)) h"
    using days by (auto simp: localDay_parseDate_zone ymd_def)
  from iff local parsed show ?thesis by blast
qed

theorem isDayScheduled_interval_witness:
  "isDayScheduled 0 (parseDate (ymd 2024 1 1)) (intervalHabit 2 (parseDate (ymd 2024 1 1))) \<and>
   \<not> isDayScheduled 0 (parseDate (ymd 2024 1 2)) (intervalHabit 2 (parseDate (ymd 2024 1 1))) \<and>
   isDayScheduled 0 (parseDate (ymd 2024 1 3)) (intervalHabit 2 (parseDate (ymd 2024 1 1))) \<and>
   \<not> isDayScheduled 0 (parseDate (ymd 2024 1 4)) (intervalHabit 2 (parseDate (ymd 2024 1 1))) \<and>
   isDayScheduled 0 (parseDate (ymd 2024 1 5)) (intervalHabit 2 (parseDate (ymd 2024 1 1))) \<and>
   isDayScheduled (- 300) (parseDate (ymd 2024 1 3))
     (intervalHabit 2 (parseDate (ymd 2024 1 1))) \<and>
   \<not> isDayScheduled (- 300) (parseDate (ymd 2024 1 4))
     (intervalHabit 2 (parseDate (ymd 2024 1 1)))"
proof -
  let ?h = "intervalHabit 2 (parseDate (ymd 2024 1 1))"
  have f: "frequency ?h = Some ''interval''" by (simp add: intervalHabit_def)
  have c: "createdAt ?h = Some (parseDate (ymd 2024 1 1))" by (simp add: intervalHabit_def)
  have i: "interval ?h = Some 2" by (simp add: intervalHabit_def)
  have l: "localDay 0 (parseDate d) = d" for d
    by (simp add: localDay_def parseDate_def msPerDay_def)
  note t = isDayScheduled_interval [OF f c, of 0, THEN conjunct2, THEN conjunct1,
      rule_format, OF conjI [OF i l]]
  note p = isDayScheduled_interval [OF f c, of "- 300", THEN conjunct2, THEN conjunct2,
      rule_format, OF conjI [OF i refl]]
  show ?thesis
    using t [of "parseDate (ymd 2024 1 1)"] t [of "parseDate (ymd 2024 1 2)"]
      t [of "parseDate (ymd 2024 1 3)"] t [of "parseDate (ymd 2024 1 4)"]
      t [of "parseDate (ymd 2024 1 5)"] p
    by (simp add: l)
qed

text \<open>
  C5 as stated fails in two places. The interval 1 is invalid for the specification
  (an interval is at least 2) but is not replaced by 2: with \<open>createdAt\<close> on 2024-01-01
  the day 2024-01-02 is scheduled, where the rule of the specification says it is not.
  And the scenario depends on how the dates are built: five hours west of UTC, with
  \<open>createdAt\<close> the date-only string \<^verbatim>\<open>'2024-01-01'\<close> (midnight UTC, which is the local
  evening of 2023-12-31) and the dates at local midnight, as the walks of the engine build
  them, 2024-01-01 is not scheduled and 2024-01-02 is.
\<close>

theorem isDayScheduled_interval_not_as_stated:
  "isDayScheduled 0 (parseDate (ymd 2024 1 2)) (intervalHabit 1 (parseDate (ymd 2024 1 1))) \<and>
   \<not> intervalRuleOfSpec 0 (parseDate (ymd 2024 1 2)) (parseDate (ymd 2024 1 1)) (Some 1) \<and>
   formatDate (- 300) (addDays (setHours0 (- 300) (now (noonClock (- 300)))) (- 2)) =
     ymd 2024 1 1 \<and>
   \<not> isDayScheduled (- 300) (addDays (setHours0 (- 300) (now (noonClock (- 300)))) (- 2))
       (intervalHabit 2 (parseDate (ymd 2024 1 1))) \<and>
   formatDate (- 300) (addDays (setHours0 (- 300) (now (noonClock (- 300)))) (- 1)) =
     ymd 2024 1 2 \<and>
   isDayScheduled (- 300) (addDays (setHours0 (- 300) (now (noonClock (- 300)))) (- 1))
     (intervalHabit 2 (parseDate (ymd 2024 1 1)))"
  by (simp add: isDayScheduled_def intervalRuleOfSpec_def intervalHabit_def noonClock_def
      formatDate_def addDays_def setHours0_def localDay_def parseDate_def ymd_def msPerDay_def
      signed_modulo_int_def)

text \<open>
  C10. For frequency \<open>interval\<close>, an absent interval and the interval 0 are replaced by
  2; every other value is used as it is; with the interval 1 every date on or after local
  midnight of the day of \<open>createdAt\<close> is scheduled.
\<close>

theorem isDayScheduled_interval_falsy_or_one:
  assumes "frequency h = Some ''interval''" and "createdAt h = Some created"
  shows "(interval h = None \<or> interval h = Some 0 \<longrightarrow>
           (isDayScheduled tz date h \<longleftrightarrow>
              setHours0 tz created \<le> date \<and>
              2 dvd (date - setHours0 tz created) div msPerDay)) \<and>
         (\<forall>n. interval h = Some n \<and> n \<noteq> 0 \<longrightarrow>
           (isDayScheduled tz date h \<longleftrightarrow>
              setHours0 tz created \<le> date \<and>
              n dvd (date - setHours0 tz created) div msPerDay)) \<and>
         (interval h = Some 1 \<longrightarrow>
           (isDayScheduled tz date h \<longleftrightarrow> setHours0 tz created \<le> date))"
  using isDayScheduled_interval_iff [OF assms, of tz date] by auto

theorem isDayScheduled_interval_falsy_or_one_witness:
  "isDayScheduled 0 (parseDate (ymd 2024 1 2)) (intervalHabit 1 (parseDate (ymd 2024 1 1))) \<and>
   \<not> isDayScheduled 0 (parseDate (ymd 2024 1 2)) (intervalHabit 0 (parseDate (ymd 2024 1 1))) \<and>
   isDayScheduled 0 (parseDate (ymd 2024 1 3)) (intervalHabit 0 (parseDate (ymd 2024 1 1)))"
proof -
  have f: "frequency (intervalHabit n s) = Some ''interval''" for n s
    by (simp add: intervalHabit_def)
  have c: "createdAt (intervalHabit n s) = Some s" for n s
    by (simp add: intervalHabit_def)
  have i: "interval (intervalHabit n s) = Some n" for n s
    by (simp add: intervalHabit_def)
  show ?thesis
    using
      isDayScheduled_interval_falsy_or_one [of "intervalHabit 1 (parseDate (ymd 2024 1 1))"
        "parseDate (ymd 2024 1 1)" 0 "parseDate (ymd 2024 1 2)", OF f c]
      isDayScheduled_interval_falsy_or_one [of "intervalHabit 0 (parseDate (ymd 2024 1 1))"
        "parseDate (ymd 2024 1 1)" 0 "parseDate (ymd 2024 1 2)", OF f c]
      isDayScheduled_interval_falsy_or_one [of "intervalHabit 0 (parseDate (ymd 2024 1 1))"
        "parseDate (ymd 2024 1 1)" 0 "parseDate (ymd 2024 1 3)", OF f c]
    by (simp add: i setHours0_def localDay_def parseDate_def ymd_def msPerDay_def)
qed

section \<open>The completion rate\<close>

lemma completionRateLoop_counts:
  "completionRateLoop tz cs h today days i scheduledDays completedDays =
     (scheduledDays +
        length (filter (\<lambda>j. isDayScheduled tz (addDays today (- j)) h) [i..days - 1]),
      completedDays +
        length (filter (\<lambda>j. isDayScheduled tz (addDays today (- j)) h \<and>
                            formatDate tz (addDays today (- j)) \<in> cs) [i..days - 1]))"
proof (induction tz cs h today days i scheduledDays completedDays
       rule: completionRateLoop.induct)
  case (1 tz cs h today days i scheduledDays completedDays)
  show ?case
  proof (cases "i < days")
    case True
    then have up: "[i..days - 1] = i # [i + 1..days - 1]"
      by (simp add: upto_rec1)
    show ?thesis
      using True "1.IH"
      by (subst completionRateLoop.simps) (simp add: up)
  next
    case False
    then have "[i..days - 1] = []" by simp
    then show ?thesis
      using False by (subst completionRateLoop.simps) simp
  qed
qed

lemma length_filter_upto:
  "length (filter P [0..days - 1]) = card {j. 0 \<le> j \<and> j < days \<and> P j}"
proof -
  have "length (filter P [0..days - 1]) = card ({j. P j} \<inter> set [0..days - 1])"
    by (rule distinct_length_filter) simp
  also have "{j. P j} \<inter> set [0..days - 1] = {j. 0 \<le> j \<and> j < days \<and> P j}"
    by auto
  finally show ?thesis .
qed

text \<open>
  C7. \<open>calculateCompletionRate\<close> counts, over the \<open>days\<close> days that end today (the
  offsets \<open>0 \<le> j < days\<close>), the scheduled days and the days both scheduled and
  completed. When no day is scheduled it returns 0, where the quotient of the two counters
  would be NaN; otherwise it returns the quotient. In both cases the result is a finite
  number between 0 and 1. For \<open>days \<le> 0\<close> the window is empty and the result is 0.
\<close>

theorem calculateCompletionRate_guarded:
  fixes c :: clock and completedDates :: "dateStr list" and h :: habit and days :: int
  defines "today \<equiv> setHours0 (utcOffset c) (now c)"
  defines "scheduledDays \<equiv> card {j. 0 \<le> j \<and> j < days \<and>
             isDayScheduled (utcOffset c) (addDays today (- j)) h}"
  defines "completedDays \<equiv> card {j. 0 \<le> j \<and> j < days \<and>
             isDayScheduled (utcOffset c) (addDays today (- j)) h \<and>
             formatDate (utcOffset c) (addDays today (- j)) \<in> set completedDates}"
  shows "(if scheduledDays = 0
          then calculateCompletionRate c completedDates h days = Num 0 \<and>
               jsDivide (real completedDays) (real scheduledDays) = NaN
          else calculateCompletionRate c completedDates h days =
               jsDivide (real completedDays) (real scheduledDays)) \<and>
         (\<exists>r. calculateCompletionRate c completedDates h days = Num r \<and> 0 \<le> r \<and> r \<le> 1)"
proof -
  have rate: "calculateCompletionRate c completedDates h days =
           (if scheduledDays > 0 then jsDivide (real completedDays) (real scheduledDays)
            else Num 0)"
    unfolding calculateCompletionRate_def Let_def completionRateLoop_counts
      scheduledDays_def completedDays_def today_def
    by (simp add: length_filter_upto)
  have fin: "finite {j. 0 \<le> j \<and> j < days \<and>
             isDayScheduled (utcOffset c) (addDays today (- j)) h}"
    by (rule finite_subset [of _ "{0..<days}"]) auto
  have le: "completedDays \<le> scheduledDays"
    unfolding completedDays_def scheduledDays_def
    by (rule card_mono [OF fin]) auto
  show ?thesis
  proof (cases "scheduledDays = 0")
    case True
    then have "completedDays = 0" using le by simp
    then show ?thesis using True rate by (simp add: jsDivide_def)
  next
    case False
    then have "calculateCompletionRate c completedDates h days =
               Num (real completedDays / real scheduledDays)"
      using rate by (simp add: jsDivide_def)
    moreover have "0 \<le> real completedDays / real scheduledDays"
      and "real completedDays / real scheduledDays \<le> 1"
      using False le by simp_all
    ultimately show ?thesis using False by (simp add: jsDivide_def)
  qed
qed

theorem calculateCompletionRate_guarded_witness:
  "calculateCompletionRate (noonClock 0) [ymd 2024 1 3]
     \<lparr>frequency = Some ''interval'', interval = Some 2, createdAt = None,
      specificDays = None\<rparr> 30 = Num 0 \<and>
   jsDivide (real 0) (real 0) = NaN"
proof -
  let ?h = "\<lparr>frequency = Some ''interval'', interval = Some 2, createdAt = None,
      specificDays = None\<rparr>"
  have never: "\<not> isDayScheduled tz date ?h" for tz date
    by (simp add: isDayScheduled_def)
  show ?thesis
    using calculateCompletionRate_guarded [of 30 "noonClock 0" ?h "[ymd 2024 1 3]"]
    by (simp add: never)
qed

section \<open>The two default windows of the statistics\<close>

lemma habitScoreLoop_skip:
  "\<forall>j. lo \<le> j \<and> j < lo + int n \<longrightarrow> \<not> isDayScheduled tz (addDays today (- j)) h \<Longrightarrow>
   0 \<le> lo \<Longrightarrow>
   habitScoreLoop tz cs h today (lo + int n - 1) score = habitScoreLoop tz cs h today (lo - 1) score"
proof (induction n)
  case 0
  show ?case by simp
next
  case (Suc n)
  have eq: "lo + int (Suc n) - 1 = lo + int n" by simp
  have here: "\<not> isDayScheduled tz (addDays today (- (lo + int n))) h"
    using Suc.prems(1) [rule_format, of "lo + int n"] by simp
  have rest: "\<forall>j. lo \<le> j \<and> j < lo + int n \<longrightarrow> \<not> isDayScheduled tz (addDays today (- j)) h"
    using Suc.prems(1) by simp
  have "habitScoreLoop tz cs h today (lo + int n) score =
        habitScoreLoop tz cs h today (lo + int n - 1) score"
    using here Suc.prems(2) by (subst habitScoreLoop_unfold) (simp add: nextScore_def)
  then show ?case
    unfolding eq using Suc.IH [OF rest Suc.prems(2)] by simp
qed

lemma noonClock_today: "setHours0 0 (now (noonClock 0)) = parseDate (ymd 2024 1 3)"
  by (simp add: noonClock_def setHours0_def localDay_def parseDate_def ymd_def msPerDay_def)

lemma localDay_parseDate: "localDay 0 (parseDate d) = d"
  by (simp add: localDay_def parseDate_def msPerDay_def)

lemma example_scheduled:
  "isDayScheduled 0 (addDays (parseDate (ymd 2024 1 3)) (- i))
     (intervalHabit 1000 (parseDate (ymd 2023 11 24))) \<longleftrightarrow> i \<le> 40 \<and> 1000 dvd (40 - i)"
proof -
  let ?h = "intervalHabit 1000 (parseDate (ymd 2023 11 24))"
  let ?date = "addDays (parseDate (ymd 2024 1 3)) (- i)"
  let ?start = "setHours0 0 (parseDate (ymd 2023 11 24))"
  have f: "frequency ?h = Some ''interval''" and c: "createdAt ?h = Some (parseDate (ymd 2023 11 24))"
    by (simp_all add: intervalHabit_def)
  have days: "(?date - ?start) div msPerDay = 40 - i"
    by (simp add: daysSinceStart_localDay localDay_addDays localDay_parseDate ymd_def)
  have "isDayScheduled 0 ?date ?h \<longleftrightarrow> ?start \<le> ?date \<and> 1000 dvd (?date - ?start) div msPerDay"
    using isDayScheduled_interval_iff [OF f c, of 0 ?date] by (simp add: intervalHabit_def)
  also have "?start \<le> ?date \<longleftrightarrow> 0 \<le> (?date - ?start) div msPerDay"
    by (rule daysSinceStart_nonneg [symmetric])
  finally show ?thesis unfolding days by simp
qed

lemma example_unscheduled:
  assumes "0 \<le> i" "i < 60" "i \<noteq> 40"
  shows "\<not> isDayScheduled 0 (addDays (parseDate (ymd 2024 1 3)) (- i))
     (intervalHabit 1000 (parseDate (ymd 2023 11 24)))"
proof -
  have "\<not> 1000 dvd (40 - i)" if "i \<le> 40"
  proof
    assume d: "1000 dvd (40 - i)"
    have "0 < 40 - i" using that assms(3) by simp
    with d have "1000 \<le> 40 - i" by (rule zdvd_imp_le)
    with assms(1) show False by simp
  qed
  then show ?thesis unfolding example_scheduled by blast
qed

lemma example_date:
  "formatDate 0 (addDays (parseDate (ymd 2024 1 3)) (- i)) = ymd 2024 1 3 - i"
  by (simp add: formatDate_def localDay_addDays localDay_parseDate)

lemma example_score_60:
  "calculateHabitScore (noonClock 0) [ymd 2023 11 24]
     (intervalHabit 1000 (parseDate (ymd 2023 11 24))) 60 = 0.052"
proof -
  let ?h = "intervalHabit 1000 (parseDate (ymd 2023 11 24))"
  let ?today = "parseDate (ymd 2024 1 3)"
  let ?cs = "set [ymd 2023 11 24]"
  have u: "utcOffset (noonClock 0) = 0" by (simp add: noonClock_def)
  have "habitScoreLoop 0 ?cs ?h ?today (41 + int 19 - 1) 0 = habitScoreLoop 0 ?cs ?h ?today (41 - 1) 0"
    by (rule habitScoreLoop_skip) (simp_all add: example_unscheduled)
  then have a: "habitScoreLoop 0 ?cs ?h ?today 59 0 = habitScoreLoop 0 ?cs ?h ?today 40 0"
    by simp
  have "formatDate 0 (addDays ?today (- 40)) \<in> ?cs"
    unfolding example_date by (simp add: ymd_def)
  moreover have "isDayScheduled 0 (addDays ?today (- 40)) ?h"
    unfolding example_scheduled by simp
  ultimately have b: "habitScoreLoop 0 ?cs ?h ?today 40 0 = habitScoreLoop 0 ?cs ?h ?today 39 0.052"
    by (subst habitScoreLoop_unfold)
       (simp add: nextScore_def MAX_SCORE_def SCORE_INCREASE_def)
  have "habitScoreLoop 0 ?cs ?h ?today (0 + int 40 - 1) 0.052 =
        habitScoreLoop 0 ?cs ?h ?today (0 - 1) 0.052"
    by (rule habitScoreLoop_skip) (simp_all add: example_unscheduled)
  then have c: "habitScoreLoop 0 ?cs ?h ?today 39 0.052 = 0.052"
    by (subst (asm) (2) habitScoreLoop_unfold) simp
  show ?thesis
    unfolding calculateHabitScore_def Let_def u noonClock_today using a b c by simp
qed

lemma example_history_30:
  "point_score (last (calculateScoreHistory (noonClock 0) [ymd 2023 11 24]
     (intervalHabit 1000 (parseDate (ymd 2023 11 24))) 30)) = 0"
proof -
  let ?h = "intervalHabit 1000 (parseDate (ymd 2023 11 24))"
  let ?today = "parseDate (ymd 2024 1 3)"
  let ?cs = "set [ymd 2023 11 24]"
  have u: "utcOffset (noonClock 0) = 0" by (simp add: noonClock_def)
  have "habitScoreLoop 0 ?cs ?h ?today (0 + int 30 - 1) 0 = habitScoreLoop 0 ?cs ?h ?today (0 - 1) 0"
    by (rule habitScoreLoop_skip) (simp_all add: example_unscheduled)
  then have a: "habitScoreLoop 0 ?cs ?h ?today 29 0 = 0"
    by (subst (asm) (2) habitScoreLoop_unfold) simp
  have "point_score (last (scoreHistoryLoop 0 ?cs ?h ?today (int 29) 0 [])) =
        habitScoreLoop 0 ?cs ?h ?today (int 29) 0"
    by (rule scoreHistoryLoop_last)
  then show ?thesis
    unfolding calculateScoreHistory_def Let_def u noonClock_today using a by simp
qed

text \<open>
  C9. \<open>getHabitStats\<close> takes its score over 60 days and its history over 30 days, and
  there are inputs on which the score differs from the score of the last history entry:
  a habit scheduled once, 40 days ago, and completed on that day has the score 0.052 and
  a history that ends with 0.
\<close>

theorem getHabitStats_windows:
  "stats_score (getHabitStats c completedDates h) = calculateHabitScore c completedDates h 60 \<and>
   stats_scoreHistory (getHabitStats c completedDates h) =
     calculateScoreHistory c completedDates h 30 \<and>
   (\<exists>c' completedDates' h'.
      stats_score (getHabitStats c' completedDates' h') \<noteq>
      point_score (last (stats_scoreHistory (getHabitStats c' completedDates' h'))))"
proof -
  have "stats_score (getHabitStats (noonClock 0) [ymd 2023 11 24]
           (intervalHabit 1000 (parseDate (ymd 2023 11 24)))) \<noteq>
        point_score (last (stats_scoreHistory (getHabitStats (noonClock 0) [ymd 2023 11 24]
           (intervalHabit 1000 (parseDate (ymd 2023 11 24))))))"
    by (simp add: getHabitStats_def example_score_60 example_history_30)
  then show ?thesis
    by (auto simp: getHabitStats_def)
qed

section \<open>Current streak and best streak\<close>

text \<open>
  C4 does not hold of the code. \<^verbatim>\<open>calculateBestStreak\<close> starts at
  \<^verbatim>\<open>new Date(sortedDates[0])\<close>, which is midnight UTC of the first completion, and walks
  in steps of one day while the date is at most local midnight of today. In a zone east
  or west of UTC the walk is at a time of day after local midnight, so it stops before it
  has looked at today, whereas \<^verbatim>\<open>calculateStreak\<close> counts today. With today as the
  only completion of a daily habit, at noon in UTC+1 and in UTC-5, the current streak is 1
  and the best streak is 0.
\<close>

theorem streak_exceeds_best:
  "calculateStreak (noonClock 60) [ymd 2024 1 3] dailyHabit = 1 \<and>
   calculateBestStreak (noonClock 60) [ymd 2024 1 3] dailyHabit = 0 \<and>
   calculateStreak (noonClock (- 300)) [ymd 2024 1 3] dailyHabit = 1 \<and>
   calculateBestStreak (noonClock (- 300)) [ymd 2024 1 3] dailyHabit = 0"
  unfolding calculateStreak_def calculateBestStreak_def Let_def
  by (simp add: streakLoop.simps bestStreakLoop.simps isDayScheduled_def dailyHabit_def noonClock_def
      setHours0_def localDay_def parseDate_def ymd_def msPerDay_def addDays_def formatDate_def)

section \<open>The two streaks when local time is UTC\<close>

text \<open>
  With the offset 0, midnight UTC of the first completion is a local midnight, so both
  walks stand on local midnights and the forward walk reaches today. Then the current
  streak is a run of scheduled, completed days between the first completion and today,
  and the forward walk counts at least that run: the best streak is at least the current
  streak. The defect above is therefore the mix of the UTC reading of the date string
  with the local midnight of today, and nothing else.
\<close>

lemma day_le_iff: "a * msPerDay \<le> b * msPerDay \<longleftrightarrow> a \<le> b"
  using msPerDay_pos by simp

lemma formatDate_day: "formatDate 0 (d * msPerDay) = d"
  using msPerDay_pos by (simp add: formatDate_def localDay_def)

lemma addDays_day: "addDays (d * msPerDay) k = (d + k) * msPerDay"
  by (simp add: addDays_def algebra_simps)

lemma daysDiff_day: "(L * msPerDay - d * msPerDay) div msPerDay = L - d"
proof -
  have "L * msPerDay - d * msPerDay = (L - d) * msPerDay"
    by (simp add: algebra_simps)
  then show ?thesis using msPerDay_pos by simp
qed

lemma streakLoop_day:
  "streakLoop 0 cs h (L * msPerDay) (d * msPerDay) s =
     (if isDayScheduled 0 (d * msPerDay) h \<and> d \<notin> cs then s
      else if L - (d - 1) > 365
      then (if isDayScheduled 0 (d * msPerDay) h then s + 1 else s)
      else streakLoop 0 cs h (L * msPerDay) ((d - 1) * msPerDay)
             (if isDayScheduled 0 (d * msPerDay) h then s + 1 else s))"
proof -
  have a: "addDays (d * msPerDay) (- 1) = (d - 1) * msPerDay"
    using addDays_day [of d "- 1"] by simp
  show ?thesis
    by (subst streakLoop.simps) (simp only: a formatDate_day daysDiff_day)
qed

lemma bestStreakLoop_day:
  "bestStreakLoop 0 cs h (L * msPerDay) (d * msPerDay) best cur =
     (if d \<le> L then
        (if isDayScheduled 0 (d * msPerDay) h then
           (if d \<in> cs then
              bestStreakLoop 0 cs h (L * msPerDay) ((d + 1) * msPerDay)
                (max best (cur + 1)) (cur + 1)
            else bestStreakLoop 0 cs h (L * msPerDay) ((d + 1) * msPerDay) best 0)
         else bestStreakLoop 0 cs h (L * msPerDay) ((d + 1) * msPerDay) best cur)
      else best)"
  by (subst bestStreakLoop.simps) (simp only: addDays_day formatDate_day day_le_iff)

lemma streakLoop_counts:
  "\<exists>m. m \<le> d + 1 \<and>
     (\<forall>x. m \<le> x \<and> x \<le> d \<and> isDayScheduled 0 (x * msPerDay) h \<longrightarrow> x \<in> cs) \<and>
     streakLoop 0 cs h (L * msPerDay) (d * msPerDay) s =
       s + length (filter (\<lambda>x. isDayScheduled 0 (x * msPerDay) h) [m..d])"
proof (induction "nat (366 - (L - d))" arbitrary: d s rule: less_induct)
  case less
  let ?S = "\<lambda>x. isDayScheduled 0 (x * msPerDay) h"
  let ?s' = "if ?S d then s + 1 else s"
  show ?case
  proof (cases "?S d \<and> d \<notin> cs")
    case True
    then have "streakLoop 0 cs h (L * msPerDay) (d * msPerDay) s = s"
      by (subst streakLoop_day) simp
    then show ?thesis
      by (intro exI [of _ "d + 1"]) auto
  next
    case False
    have single: "length (filter ?S [d..d]) = (if ?S d then 1 else 0)"
      by simp
    show ?thesis
    proof (cases "L - (d - 1) > 365")
      case True
      then have "streakLoop 0 cs h (L * msPerDay) (d * msPerDay) s = ?s'"
        using False by (subst streakLoop_day) auto
      then show ?thesis
        using False by (intro exI [of _ d]) auto
    next
      case far: False
      then have "nat (366 - (L - (d - 1))) < nat (366 - (L - d))" by simp
      from less [OF this, of ?s'] obtain m where m: "m \<le> d"
        and all: "\<forall>x. m \<le> x \<and> x \<le> d - 1 \<and> ?S x \<longrightarrow> x \<in> cs"
        and eq: "streakLoop 0 cs h (L * msPerDay) ((d - 1) * msPerDay) ?s' =
                 ?s' + length (filter ?S [m..d - 1])"
        by auto
      have up: "[m..d] = [m..d - 1] @ [d]"
        using m by (simp add: upto_rec2)
      have "streakLoop 0 cs h (L * msPerDay) (d * msPerDay) s =
            streakLoop 0 cs h (L * msPerDay) ((d - 1) * msPerDay) ?s'"
        using False far by (subst streakLoop_day) auto
      also have "\<dots> = s + length (filter ?S [m..d])"
        unfolding eq up by simp
      finally have r: "streakLoop 0 cs h (L * msPerDay) (d * msPerDay) s =
            s + length (filter ?S [m..d])" .
      have all': "\<forall>x. m \<le> x \<and> x \<le> d \<and> ?S x \<longrightarrow> x \<in> cs"
      proof (intro allI impI)
        fix x assume x: "m \<le> x \<and> x \<le> d \<and> ?S x"
        show "x \<in> cs"
        proof (cases "x = d")
          case True
          then show ?thesis using x False by simp
        next
          case False
          then show ?thesis using x all by simp
        qed
      qed
      show ?thesis
        using m all' r by (intro exI [of _ m]) simp
    qed
  qed
qed

lemma bestStreakLoop_ge_best:
  "best \<le> bestStreakLoop tz cs h endDate currentDate best cur"
proof (induction tz cs h endDate currentDate best cur rule: bestStreakLoop.induct)
  case (1 tz cs h endDate currentDate best cur)
  show ?case
    using "1.IH" by (subst bestStreakLoop.simps) (auto split: if_splits)
qed

lemma bestStreakLoop_run:
  assumes "\<forall>x. a \<le> x \<and> x \<le> d \<and> isDayScheduled 0 (x * msPerDay) h \<longrightarrow> x \<in> cs"
    and "d \<le> L" and "int n = d + 1 - a" and "cur \<le> best"
  shows "cur + length (filter (\<lambda>x. isDayScheduled 0 (x * msPerDay) h) [a..d])
         \<le> bestStreakLoop 0 cs h (L * msPerDay) (a * msPerDay) best cur"
  using assms
proof (induction n arbitrary: a best cur)
  case 0
  then have "[a..d] = []" by simp
  moreover have "best \<le> bestStreakLoop 0 cs h (L * msPerDay) (a * msPerDay) best cur"
    by (rule bestStreakLoop_ge_best)
  ultimately show ?case using "0.prems"(4) by simp
next
  case (Suc n)
  let ?S = "\<lambda>x. isDayScheduled 0 (x * msPerDay) h"
  have a: "a \<le> d" "a \<le> L" using Suc.prems(2,3) by simp_all
  have up: "[a..d] = a # [a + 1..d]" using a by (simp add: upto_rec1)
  have rest: "\<forall>x. a + 1 \<le> x \<and> x \<le> d \<and> ?S x \<longrightarrow> x \<in> cs"
    using Suc.prems(1) by simp
  have n: "int n = d + 1 - (a + 1)" using Suc.prems(3) by simp
  show ?case
  proof (cases "?S a")
    case True
    then have "a \<in> cs" using Suc.prems(1) a by simp
    have "cur + 1 + length (filter ?S [a + 1..d])
          \<le> bestStreakLoop 0 cs h (L * msPerDay) ((a + 1) * msPerDay) (max best (cur + 1)) (cur + 1)"
      by (rule Suc.IH [OF rest Suc.prems(2) n]) simp
    then show ?thesis
      using True \<open>a \<in> cs\<close> a by (subst bestStreakLoop_day) (simp add: up)
  next
    case False
    have "cur + length (filter ?S [a + 1..d])
          \<le> bestStreakLoop 0 cs h (L * msPerDay) ((a + 1) * msPerDay) best cur"
      by (rule Suc.IH [OF rest Suc.prems(2) n Suc.prems(4)])
    then show ?thesis
      using False a by (subst bestStreakLoop_day) (simp add: up)
  qed
qed

lemma bestStreakLoop_later_run:
  assumes "\<forall>x. m \<le> x \<and> x \<le> d \<and> isDayScheduled 0 (x * msPerDay) h \<longrightarrow> x \<in> cs"
    and "d \<le> L" and "m \<le> d + 1" and "int n = m - a" and "cur \<le> best"
  shows "length (filter (\<lambda>x. isDayScheduled 0 (x * msPerDay) h) [m..d])
         \<le> bestStreakLoop 0 cs h (L * msPerDay) (a * msPerDay) best cur"
  using assms
proof (induction n arbitrary: a best cur)
  case 0
  then have "a = m" by simp
  obtain k where k: "int k = d + 1 - m"
    using "0.prems"(3) by (metis diff_ge_0_iff_ge nat_0_le)
  show ?case
    unfolding \<open>a = m\<close>
    using bestStreakLoop_run [OF "0.prems"(1,2) k "0.prems"(5)] by simp
next
  case (Suc n)
  have a: "a \<le> L" using Suc.prems(2,3,4) by simp
  have n: "int n = m - (a + 1)" using Suc.prems(4) by simp
  note IH = Suc.IH [OF Suc.prems(1,2,3) n]
  have 1: "length (filter (\<lambda>x. isDayScheduled 0 (x * msPerDay) h) [m..d])
      \<le> bestStreakLoop 0 cs h (L * msPerDay) ((a + 1) * msPerDay) (max best (cur + 1)) (cur + 1)"
    by (rule IH) simp
  have 2: "length (filter (\<lambda>x. isDayScheduled 0 (x * msPerDay) h) [m..d])
      \<le> bestStreakLoop 0 cs h (L * msPerDay) ((a + 1) * msPerDay) best 0"
    by (rule IH) simp
  have 3: "length (filter (\<lambda>x. isDayScheduled 0 (x * msPerDay) h) [m..d])
      \<le> bestStreakLoop 0 cs h (L * msPerDay) ((a + 1) * msPerDay) best cur"
    by (rule IH) (rule Suc.prems(5))
  show ?case
    using a 1 2 3 by (subst bestStreakLoop_day) simp
qed

lemma sort_first_least:
  assumes "completedDates \<noteq> []"
  shows "sort completedDates ! 0 \<in> set completedDates"
    and "\<forall>x \<in> set completedDates. sort completedDates ! 0 \<le> x"
proof -
  let ?xs = "sort completedDates"
  have len: "0 < length ?xs" using assms by simp
  then have "?xs ! 0 \<in> set ?xs" by (rule nth_mem)
  then show "?xs ! 0 \<in> set completedDates" by simp
  show "\<forall>x \<in> set completedDates. ?xs ! 0 \<le> x"
  proof
    fix x assume "x \<in> set completedDates"
    then have "x \<in> set ?xs" by simp
    then obtain i where i: "i < length ?xs" "?xs ! i = x"
      by (metis in_set_conv_nth)
    have "?xs ! 0 \<le> ?xs ! i"
      by (rule sorted_nth_mono [OF sorted_sort _ i(1)]) simp
    then show "?xs ! 0 \<le> x" using i(2) by simp
  qed
qed

lemma calculateStreak_le_best_UTC:
  assumes "utcOffset c = 0"
  shows "calculateStreak c completedDates h \<le> calculateBestStreak c completedDates h"
proof (cases "completedDates = []")
  case True
  then show ?thesis by (simp add: calculateStreak_def calculateBestStreak_def)
next
  case False
  let ?S = "\<lambda>x. isDayScheduled 0 (x * msPerDay) h"
  let ?cs = "set completedDates"
  define L where "L = localDay 0 (now c)"
  define e where "e = sort completedDates ! 0"
  define d where "d = (if L \<notin> ?cs \<and> ?S L then L - 1 else L)"
  have today: "setHours0 0 (now c) = L * msPerDay"
    by (simp add: setHours0_def L_def)
  have e: "e \<in> ?cs" "\<forall>x \<in> ?cs. e \<le> x"
    unfolding e_def using sort_first_least [OF False] by blast+
  have d: "d \<le> L" by (simp add: d_def)
  have yesterday: "addDays (L * msPerDay) (- 1) = (L - 1) * msPerDay"
    using addDays_day [of L "- 1"] by simp
  have streak: "calculateStreak c completedDates h =
                streakLoop 0 ?cs h (L * msPerDay) (d * msPerDay) 0"
    using False
    by (simp add: calculateStreak_def Let_def assms today formatDate_day yesterday d_def)
  have ne: "sort completedDates \<noteq> []"
    using False by (metis length_0_conv length_sort)
  have best: "calculateBestStreak c completedDates h =
              bestStreakLoop 0 ?cs h (L * msPerDay) (e * msPerDay) 0 0"
    using False ne
    by (simp add: calculateBestStreak_def Let_def assms today parseDate_def e_def)
  from streakLoop_counts [of d h ?cs L 0] obtain m where m: "m \<le> d + 1"
    and all: "\<forall>x. m \<le> x \<and> x \<le> d \<and> ?S x \<longrightarrow> x \<in> ?cs"
    and run: "streakLoop 0 ?cs h (L * msPerDay) (d * msPerDay) 0 = length (filter ?S [m..d])"
    by auto
  have early: "\<not> ?S x" if "m \<le> x" "x \<le> d" "x < e" for x
  proof
    assume "?S x"
    with all that have "x \<in> ?cs" by blast
    with e(2) have "e \<le> x" by blast
    with that(3) show False by simp
  qed
  have "length (filter ?S [m..d]) \<le> bestStreakLoop 0 ?cs h (L * msPerDay) (e * msPerDay) 0 0"
  proof (cases "e \<le> m")
    case True
    then obtain n where n: "int n = m - e"
      by (metis diff_ge_0_iff_ge nat_0_le)
    show ?thesis
      by (rule bestStreakLoop_later_run [OF all d m n]) simp
  next
    case False
    show ?thesis
    proof (cases "e \<le> d")
      case True
      have split: "[m..d] = [m..e - 1] @ [e..d]"
        using False True by (intro upto_split1) simp_all
      have "filter ?S [m..e - 1] = []"
        using early True by (auto simp: filter_empty_conv)
      then have count: "length (filter ?S [m..d]) = length (filter ?S [e..d])"
        unfolding split by simp
      have all': "\<forall>x. e \<le> x \<and> x \<le> d \<and> ?S x \<longrightarrow> x \<in> ?cs"
        using all False by auto
      have "0 \<le> d + 1 - e" using True by simp
      then obtain n where n: "int n = d + 1 - e"
        by (metis nat_0_le)
      show ?thesis
        unfolding count
        using bestStreakLoop_run [OF all' d n, of 0 0] by simp
    next
      case False
      then have "filter ?S [m..d] = []"
        using early by (auto simp: filter_empty_conv)
      then show ?thesis by simp
    qed
  qed
  then show ?thesis unfolding streak best run .
qed

end
